theory Spec2Isabelle
  imports Main "HOL-Library.AList"
begin

section \<open>Data model\<close>

text \<open>
  The solver of \<^verbatim>\<open>generate.py\<close> (class \<^verbatim>\<open>CrosswordCreator\<close>) works on a puzzle model
  that it imports from \<^verbatim>\<open>crossword.py\<close>. That module is not among the sources, so the two
  classes it provides are taken as data: a slot with the four attributes the solver
  reads, and a puzzle whose overlap table and neighbour function are parameters.

  Python containers are modelled by their iteration order:
  \<^item> a \<^verbatim>\<open>dict\<close> is an association list with distinct keys, in insertion order;
  \<^item> a \<^verbatim>\<open>set\<close> of words is a duplicate-free list; the list order stands for the order in
    which Python happens to iterate the set.
  Exceptions are values: a function that may raise returns \<open>error + 'a\<close>.
\<close>

datatype error = KeyError | IndexError

datatype direction = ACROSS | DOWN

text \<open>Modelled from the spec: the slot of \<^verbatim>\<open>crossword.Variable\<close> (start row, start column,
  direction, length; equality is structural).\<close>

record variable =
  var_i :: nat
  var_j :: nat
  var_direction :: direction
  var_length :: nat

text \<open>Modelled from the spec: the puzzle of \<^verbatim>\<open>crossword.Crossword\<close>. \<open>overlaps\<close> is the
  dictionary keyed by ordered pairs of slots: \<open>None\<close> when the pair is not a key,
  \<open>Some None\<close> for the Python value \<^verbatim>\<open>None\<close> (no shared cell) and \<open>Some (Some (a, b))\<close> for
  an index pair. \<open>neighbors\<close> is the method of that name, returning the slots that overlap
  the given one, in the order in which the returned set is iterated.\<close>

record crossword =
  variables :: "variable list"
  words :: "string list"
  overlaps :: "variable \<times> variable \<Rightarrow> (nat \<times> nat) option option"
  neighbors :: "variable \<Rightarrow> variable list"

type_synonym domains = "(variable \<times> string list) list"

type_synonym assignment = "(variable \<times> string) list"

type_synonym arc = "variable \<times> variable"

section \<open>Python primitives\<close>

text \<open>\<^verbatim>\<open>d[k]\<close>: raises \<^verbatim>\<open>KeyError\<close> on a missing key.\<close>

definition dict_get :: "('k \<times> 'v) list \<Rightarrow> 'k \<Rightarrow> error + 'v" where
  "dict_get d k = (case map_of d k of None \<Rightarrow> Inl KeyError | Some v \<Rightarrow> Inr v)"

text \<open>\<^verbatim>\<open>d[k] = v\<close>: replaces in place, or appends a new key at the end.\<close>

definition dict_set :: "('k \<times> 'v) list \<Rightarrow> 'k \<Rightarrow> 'v \<Rightarrow> ('k \<times> 'v) list" where
  "dict_set d k v = AList.update k v d"

text \<open>\<^verbatim>\<open>del d[k]\<close>: raises \<^verbatim>\<open>KeyError\<close> on a missing key.\<close>

definition dict_del :: "('k \<times> 'v) list \<Rightarrow> 'k \<Rightarrow> error + ('k \<times> 'v) list" where
  "dict_del d k = (if k \<in> set (map fst d) then Inr (AList.delete k d) else Inl KeyError)"

text \<open>\<^verbatim>\<open>s.remove(v)\<close> on a set: raises \<^verbatim>\<open>KeyError\<close> when \<open>v\<close> is not a member.\<close>

definition set_remove :: "'a list \<Rightarrow> 'a \<Rightarrow> error + 'a list" where
  "set_remove s v = (if v \<in> set s then Inr (removeAll v s) else Inl KeyError)"

text \<open>\<^verbatim>\<open>w[i]\<close> on a string with a non-negative index: raises \<^verbatim>\<open>IndexError\<close> out of range.\<close>

definition str_index :: "string \<Rightarrow> nat \<Rightarrow> error + char" where
  "str_index w i = (if i < length w then Inr (w ! i) else Inl IndexError)"

text \<open>\<^verbatim>\<open>self.crossword.overlaps[x, y]\<close>.\<close>

definition lookup_overlap :: "crossword \<Rightarrow> variable \<Rightarrow> variable \<Rightarrow> error + (nat \<times> nat) option" where
  "lookup_overlap cw x y = (case overlaps cw (x, y) of None \<Rightarrow> Inl KeyError | Some ov \<Rightarrow> Inr ov)"

text \<open>A \<^verbatim>\<open>for\<close> loop whose body may raise: the state is threaded through the elements in
  order and the first exception ends the loop.\<close>

fun for_each :: "('a \<Rightarrow> 's \<Rightarrow> error + 's) \<Rightarrow> 'a list \<Rightarrow> 's \<Rightarrow> error + 's" where
  "for_each body [] s = Inr s"
| "for_each body (x # xs) s =
     (case body x s of Inl e \<Rightarrow> Inl e | Inr s' \<Rightarrow> for_each body xs s')"

section \<open>Consistency engine\<close>

subsection \<open>Node consistency\<close>

text \<open>\<^verbatim>\<open>self.domains[var].remove(w)\<close>: the set stored under \<open>var\<close> loses \<open>w\<close>.\<close>

definition domain_remove :: "variable \<Rightarrow> string \<Rightarrow> domains \<Rightarrow> error + domains" where
  "domain_remove var w d =
     (case dict_get d var of Inl e \<Rightarrow> Inl e
      | Inr s \<Rightarrow> (case set_remove s w of Inl e \<Rightarrow> Inl e
                  | Inr s' \<Rightarrow> Inr (dict_set d var s')))"

text \<open>The inner loop of \<^verbatim>\<open>enforce_node_consistency\<close>: each word of the copy whose length
  differs from the slot's is removed from the slot's domain.\<close>

definition prune_value :: "variable \<Rightarrow> string \<Rightarrow> domains \<Rightarrow> error + domains" where
  "prune_value var w d =
     (if length w \<noteq> var_length var then domain_remove var w d else Inr d)"

definition prune_slot :: "variable \<Rightarrow> domains \<Rightarrow> error + domains" where
  "prune_slot var d =
     (case dict_get d var of Inl e \<Rightarrow> Inl e
      | Inr domainCopy \<Rightarrow> for_each (prune_value var) domainCopy d)"

definition enforce_node_consistency :: "domains \<Rightarrow> error + domains" where
  "enforce_node_consistency doms = for_each prune_slot (map fst doms) doms"

subsection \<open>Arc revision\<close>

text \<open>The nested loops of \<^verbatim>\<open>revise\<close> that collect in \<^verbatim>\<open>removable\<close> the words of
  \<^verbatim>\<open>domains[x]\<close> that agree with some word of \<^verbatim>\<open>domains[y]\<close> at the overlap (despite its
  name, the list holds the words that are kept).\<close>

definition collect_pair :: "nat \<times> nat \<Rightarrow> string \<Rightarrow> string \<Rightarrow> string list \<Rightarrow> error + string list" where
  "collect_pair overlap xvalue yvalue removable =
     (case str_index xvalue (fst overlap) of Inl e \<Rightarrow> Inl e
      | Inr cx \<Rightarrow> (case str_index yvalue (snd overlap) of Inl e \<Rightarrow> Inl e
        | Inr cy \<Rightarrow>
            if cx = cy then
              (if xvalue \<notin> set removable then Inr (removable @ [xvalue]) else Inr removable)
            else Inr removable))"

definition collect_value :: "domains \<Rightarrow> variable \<Rightarrow> nat \<times> nat \<Rightarrow> string \<Rightarrow> string list \<Rightarrow> error + string list" where
  "collect_value doms y overlap xvalue removable =
     (case dict_get doms y of Inl e \<Rightarrow> Inl e
      | Inr ydomain \<Rightarrow> for_each (collect_pair overlap xvalue) ydomain removable)"

definition drop_value :: "variable \<Rightarrow> string list \<Rightarrow> string \<Rightarrow> domains \<Rightarrow> error + domains" where
  "drop_value x removable avalue d =
     (if avalue \<notin> set removable then domain_remove x avalue d else Inr d)"

definition revise :: "crossword \<Rightarrow> domains \<Rightarrow> variable \<Rightarrow> variable \<Rightarrow> error + (bool \<times> domains)" where
  "revise cw doms x y =
     (case lookup_overlap cw x y of Inl e \<Rightarrow> Inl e
      | Inr None \<Rightarrow> Inr (False, doms)
      | Inr (Some overlap) \<Rightarrow>
          (case dict_get doms x of Inl e \<Rightarrow> Inl e
           | Inr xdomainCopy \<Rightarrow>
               (case for_each (collect_value doms y overlap) xdomainCopy [] of Inl e \<Rightarrow> Inl e
                | Inr removable \<Rightarrow>
                    (case for_each (drop_value x removable) xdomainCopy doms of Inl e \<Rightarrow> Inl e
                     | Inr doms' \<Rightarrow>
                         (case dict_get doms' x of Inl e \<Rightarrow> Inl e
                          | Inr xdomain \<Rightarrow> Inr (set xdomainCopy \<noteq> set xdomain, doms'))))))"

subsection \<open>AC-3\<close>

text \<open>The default worklist: every ordered pair of different keys of \<^verbatim>\<open>self.domains\<close> whose
  overlap entry is truthy, in iteration order.\<close>

definition seed_pair :: "crossword \<Rightarrow> variable \<Rightarrow> variable \<Rightarrow> arc list \<Rightarrow> error + arc list" where
  "seed_pair cw a b arclist =
     (if a \<noteq> b then
        (case lookup_overlap cw a b of Inl e \<Rightarrow> Inl e
         | Inr None \<Rightarrow> Inr arclist
         | Inr (Some overlap) \<Rightarrow> Inr (arclist @ [(a, b)]))
      else Inr arclist)"

definition seed_arcs :: "crossword \<Rightarrow> domains \<Rightarrow> error + arc list" where
  "seed_arcs cw doms =
     for_each (\<lambda>a. for_each (seed_pair cw a) (map fst doms)) (map fst doms) []"

text \<open>The loop of \<^verbatim>\<open>ac3\<close>, with its condition as written: \<^verbatim>\<open>while not arclist\<close>. The body
  is entered only on an empty worklist, where \<^verbatim>\<open>arclist.pop(0)\<close> raises.\<close>

function ac3_loop :: "crossword \<Rightarrow> domains \<Rightarrow> arc list \<Rightarrow> error + (bool \<times> domains)" where
  "ac3_loop cw doms arclist =
     (if arclist = [] then
        (case arclist of
           [] \<Rightarrow> Inl IndexError
         | (x, y) # rest \<Rightarrow>
             (case revise cw doms x y of Inl e \<Rightarrow> Inl e
              | Inr (revised, doms') \<Rightarrow>
                  if revised then
                    (case dict_get doms' x of Inl e \<Rightarrow> Inl e
                     | Inr xdomain \<Rightarrow>
                         if length xdomain = 0 then Inr (False, doms')
                         else ac3_loop cw doms'
                                (rest @ map (\<lambda>z. (z, x)) (filter (\<lambda>z. z \<noteq> y) (neighbors cw x))))
                  else ac3_loop cw doms' rest))
      else Inr (True, doms))"
  by pat_completeness auto
termination
  by (relation "{}") auto

definition ac3 :: "crossword \<Rightarrow> domains \<Rightarrow> arc list option \<Rightarrow> error + (bool \<times> domains)" where
  "ac3 cw doms arcs =
     (if arcs = None \<or> arcs = Some [] then
        (case seed_arcs cw doms of Inl e \<Rightarrow> Inl e
         | Inr arclist \<Rightarrow> ac3_loop cw doms arclist)
      else ac3_loop cw doms (the arcs))"

section \<open>Search engine\<close>

subsection \<open>Completeness and consistency of an assignment\<close>

fun all_assigned :: "variable list \<Rightarrow> assignment \<Rightarrow> bool" where
  "all_assigned [] asg = True"
| "all_assigned (var # vars) asg =
     (if var \<notin> set (map fst asg) then False else all_assigned vars asg)"

definition assignment_complete :: "domains \<Rightarrow> assignment \<Rightarrow> bool" where
  "assignment_complete doms asg = all_assigned (map fst doms) asg"

text \<open>The loop of \<^verbatim>\<open>consistent\<close> over the neighbours of one assigned slot: a defined overlap
  with a neighbour that is assigned too must carry the same letter on both sides. The result
  \<open>Inr False\<close> is the early \<^verbatim>\<open>return False\<close>.\<close>

fun check_neighbors :: "crossword \<Rightarrow> assignment \<Rightarrow> variable \<Rightarrow> variable list \<Rightarrow> error + bool" where
  "check_neighbors cw asg var [] = Inr True"
| "check_neighbors cw asg var (neighbor # ns) =
     (case lookup_overlap cw var neighbor of Inl e \<Rightarrow> Inl e
      | Inr None \<Rightarrow> check_neighbors cw asg var ns
      | Inr (Some overlap) \<Rightarrow>
          if neighbor \<in> set (map fst asg) then
            (case dict_get asg var of Inl e \<Rightarrow> Inl e
             | Inr w \<Rightarrow> (case str_index w (fst overlap) of Inl e \<Rightarrow> Inl e
               | Inr c \<Rightarrow> (case dict_get asg neighbor of Inl e \<Rightarrow> Inl e
                 | Inr w' \<Rightarrow> (case str_index w' (snd overlap) of Inl e \<Rightarrow> Inl e
                   | Inr c' \<Rightarrow>
                       if c \<noteq> c' then Inr False else check_neighbors cw asg var ns))))
          else check_neighbors cw asg var ns)"

text \<open>The outer loop of \<^verbatim>\<open>consistent\<close> over the keys of the assignment; \<open>seen\<close> is the
  list \<^verbatim>\<open>values\<close> of the words met so far.\<close>

fun consistent_loop :: "crossword \<Rightarrow> assignment \<Rightarrow> variable list \<Rightarrow> string list \<Rightarrow> error + bool" where
  "consistent_loop cw asg [] seen = Inr True"
| "consistent_loop cw asg (var # vars) seen =
     (case dict_get asg var of Inl e \<Rightarrow> Inl e
      | Inr w \<Rightarrow>
          if var_length var \<noteq> length w then Inr False
          else if w \<in> set seen then Inr False
          else (case check_neighbors cw asg var (neighbors cw var) of Inl e \<Rightarrow> Inl e
                | Inr ok \<Rightarrow>
                    if ok then consistent_loop cw asg vars (seen @ [w]) else Inr False))"

definition consistent :: "crossword \<Rightarrow> assignment \<Rightarrow> error + bool" where
  "consistent cw asg = consistent_loop cw asg (map fst asg) []"

subsection \<open>Ordering of the candidate words\<close>

text \<open>\<^verbatim>\<open>order_domain_values\<close> keeps one counter per candidate word. The counter starts at 0
  when the word is entered into \<^verbatim>\<open>count\<close> and is incremented for every word of an unassigned
  neighbour that carries the \<^emph>\<open>same\<close> letter at the overlap; the model adds up the
  increments and stores the total under the word.\<close>

definition count_pair :: "(nat \<times> nat) option \<Rightarrow> string \<Rightarrow> string \<Rightarrow> int \<Rightarrow> error + int" where
  "count_pair overlap w neigborvalue c =
     (case overlap of None \<Rightarrow> Inr c
      | Some ov \<Rightarrow>
          (case str_index neigborvalue (snd ov) of Inl e \<Rightarrow> Inl e
           | Inr cn \<Rightarrow> (case str_index w (fst ov) of Inl e \<Rightarrow> Inl e
             | Inr cv \<Rightarrow> if cn = cv then Inr (c + 1) else Inr c)))"

definition count_neighbor :: "crossword \<Rightarrow> domains \<Rightarrow> variable \<Rightarrow> assignment \<Rightarrow> string \<Rightarrow> variable \<Rightarrow> int \<Rightarrow> error + int" where
  "count_neighbor cw doms var asg w oneneigbor c =
     (if oneneigbor \<in> set (map fst asg) then Inr c
      else (case lookup_overlap cw var oneneigbor of Inl e \<Rightarrow> Inl e
            | Inr overlap \<Rightarrow>
                (case dict_get doms oneneigbor of Inl e \<Rightarrow> Inl e
                 | Inr ndomain \<Rightarrow> for_each (count_pair overlap w) ndomain c)))"

definition count_value :: "crossword \<Rightarrow> domains \<Rightarrow> variable \<Rightarrow> assignment \<Rightarrow> string \<Rightarrow> (string \<times> int) list \<Rightarrow> error + (string \<times> int) list" where
  "count_value cw doms var asg w count =
     (case for_each (count_neighbor cw doms var asg w) (neighbors cw var) 0 of Inl e \<Rightarrow> Inl e
      | Inr c \<Rightarrow> Inr (dict_set count w c))"

text \<open>\<^verbatim>\<open>sorted(count.items(), key=lambda x: x[1], reverse=True)\<close> is a stable sort by
  descending counter: entries with equal counters keep their order.\<close>

definition order_domain_values :: "crossword \<Rightarrow> domains \<Rightarrow> variable \<Rightarrow> assignment \<Rightarrow> error + string list" where
  "order_domain_values cw doms var asg =
     (case dict_get doms var of Inl e \<Rightarrow> Inl e
      | Inr vdomain \<Rightarrow>
          (case for_each (count_value cw doms var asg) vdomain [] of Inl e \<Rightarrow> Inl e
           | Inr count \<Rightarrow> Inr (map fst (sort_key (\<lambda>x. - snd x) count))))"

subsection \<open>Choice of the next slot\<close>

definition count_unassigned :: "domains \<Rightarrow> assignment \<Rightarrow> variable \<Rightarrow> (variable \<times> int) list \<Rightarrow> error + (variable \<times> int) list" where
  "count_unassigned doms asg var count =
     (if var \<in> set (map fst asg) then Inr count
      else (case dict_get doms var of Inl e \<Rightarrow> Inl e
            | Inr vdomain \<Rightarrow> Inr (dict_set count var (fold (\<lambda>w c. c + 1) vdomain 0))))"

definition count_degree :: "crossword \<Rightarrow> int \<Rightarrow> variable \<times> int \<Rightarrow> (variable \<times> int) list \<Rightarrow> (variable \<times> int) list" where
  "count_degree cw highestValue kv neigbor =
     (if snd kv = highestValue
      then dict_set neigbor (fst kv) (fold (\<lambda>n c. c + 1) (neighbors cw (fst kv)) 0)
      else neigbor)"

definition select_unassigned_variable :: "crossword \<Rightarrow> domains \<Rightarrow> assignment \<Rightarrow> error + variable" where
  "select_unassigned_variable cw doms asg =
     (case for_each (count_unassigned doms asg) (map fst doms) [] of Inl e \<Rightarrow> Inl e
      | Inr count \<Rightarrow>
          (case sort_key snd count of [] \<Rightarrow> Inl IndexError
           | first # others \<Rightarrow>
               (case sort_key (\<lambda>x. - snd x) (fold (count_degree cw (snd first)) count []) of
                  [] \<Rightarrow> Inl IndexError
                | best # rest \<Rightarrow> Inr (fst best))))"

subsection \<open>Backtracking\<close>

text \<open>\<^verbatim>\<open>backtrack\<close> works on one dictionary \<^verbatim>\<open>assignment\<close> that it updates in place and
  hands to its recursive calls, so the model threads that dictionary through: a call
  returns its result (\<open>None\<close> for Python's \<^verbatim>\<open>None\<close>) together with the dictionary as the
  call leaves it. The first argument bounds the depth of the recursion; \<open>None\<close> at the
  outermost level means that the bound was too small, never a result of the program.
  \<open>try_values\<close> is the \<^verbatim>\<open>for\<close> loop over the ordered candidates. \<^verbatim>\<open>if result\<close> is Python
  truthiness: neither \<^verbatim>\<open>None\<close> nor an empty dictionary.\<close>

fun backtrack :: "nat \<Rightarrow> crossword \<Rightarrow> domains \<Rightarrow> assignment \<Rightarrow> (error + assignment option \<times> assignment) option"
  and try_values :: "nat \<Rightarrow> crossword \<Rightarrow> domains \<Rightarrow> variable \<Rightarrow> string list \<Rightarrow> assignment \<Rightarrow> (error + assignment option \<times> assignment) option"
where
  "backtrack 0 cw doms asg = None"
| "backtrack (Suc n) cw doms asg =
     (if assignment_complete doms asg then Some (Inr (Some asg, asg))
      else (case select_unassigned_variable cw doms asg of Inl e \<Rightarrow> Some (Inl e)
            | Inr var \<Rightarrow>
                (case order_domain_values cw doms var asg of Inl e \<Rightarrow> Some (Inl e)
                 | Inr candidates \<Rightarrow> try_values n cw doms var candidates asg)))"
| "try_values n cw doms var [] asg = Some (Inr (None, asg))"
| "try_values n cw doms var (w # ws) asg =
     (case consistent cw (dict_set asg var w) of Inl e \<Rightarrow> Some (Inl e)
      | Inr ok \<Rightarrow>
          if ok then
            (case backtrack n cw doms (dict_set asg var w) of None \<Rightarrow> None
             | Some (Inl e) \<Rightarrow> Some (Inl e)
             | Some (Inr (result, asg')) \<Rightarrow>
                 if result \<noteq> None \<and> result \<noteq> Some [] then Some (Inr (result, asg'))
                 else (case dict_del asg' var of Inl e \<Rightarrow> Some (Inl e)
                       | Inr asg'' \<Rightarrow> try_values n cw doms var ws asg''))
          else (case dict_del (dict_set asg var w) var of Inl e \<Rightarrow> Some (Inl e)
                | Inr asg'' \<Rightarrow> try_values n cw doms var ws asg''))"

text \<open>What the caller of \<^verbatim>\<open>backtrack\<close> receives: the returned object or the exception.\<close>

definition returned :: "(error + assignment option \<times> assignment) option \<Rightarrow> (error + assignment option) option" where
  "returned r =
     (case r of None \<Rightarrow> None
      | Some (Inl e) \<Rightarrow> Some (Inl e)
      | Some (Inr (result, asg)) \<Rightarrow> Some (Inr result))"


section \<open>Notions used in the statements\<close>

text \<open>The representation invariant of a domain store: a dictionary has no key twice and a
  set has no member twice.\<close>

definition wf_domains :: "domains \<Rightarrow> bool" where
  "wf_domains doms = (distinct (map fst doms) \<and> list_all (\<lambda>(var, s). distinct s) doms)"

text \<open>The store in which every slot keeps exactly its words of the slot's length.\<close>

definition fitting_words :: "domains \<Rightarrow> domains" where
  "fitting_words doms = map (\<lambda>(var, s). (var, filter (\<lambda>w. length w = var_length var) s)) doms"

text \<open>A word \<open>w\<close> of the first slot is supported by the second slot's domain when some word
  there carries letter \<open>w ! a\<close> at position \<open>b\<close>.\<close>

definition supported :: "nat \<Rightarrow> nat \<Rightarrow> string list \<Rightarrow> string \<Rightarrow> bool" where
  "supported a b ydomain w = list_ex (\<lambda>v. w ! a = v ! b) ydomain"

text \<open>What \<^verbatim>\<open>consistent\<close> checks for one assigned slot \<open>var\<close> and one of its neighbours \<open>n\<close>:
  the overlap entry exists, and if it is an index pair and \<open>n\<close> is assigned too, both words
  reach their index and carry the same letter there.\<close>

definition agree :: "crossword \<Rightarrow> assignment \<Rightarrow> variable \<Rightarrow> variable \<Rightarrow> bool" where
  "agree cw asg var n =
     (case overlaps cw (var, n) of None \<Rightarrow> False
      | Some None \<Rightarrow> True
      | Some (Some ov) \<Rightarrow>
          n \<in> set (map fst asg) \<longrightarrow>
          (\<exists>w w'. map_of asg var = Some w \<and> fst ov < length w \<and>
                  map_of asg n = Some w' \<and> snd ov < length w' \<and> w ! fst ov = w' ! snd ov))"

text \<open>A slot of the assignment is in order when its word has the slot's length and agrees with
  every neighbour.\<close>

definition slot_ok :: "crossword \<Rightarrow> assignment \<Rightarrow> variable \<Rightarrow> bool" where
  "slot_ok cw asg var =
     ((\<exists>w. map_of asg var = Some w \<and> var_length var = length w) \<and>
      (\<forall>n\<in>set (neighbors cw var). agree cw asg var n))"

text \<open>The quantities of the least-constraining-value order. \<open>ruled_out\<close> follows the wording of
  the specification: for a candidate \<open>w\<close> of \<open>var\<close>, the number of words in the domains of
  the unassigned neighbours whose letter at the overlap differs from the letter of \<open>w\<close>.
  \<open>agreeing\<close> is the number of those whose letter is the same, \<open>constrained_total\<close> the
  number of all of them. \<open>indexable\<close> says that no lookup and no indexing can raise: every
  unassigned neighbour has an index pair and a domain, and all words reach their index.\<close>

definition domain_of :: "domains \<Rightarrow> variable \<Rightarrow> string list" where
  "domain_of doms n = (case map_of doms n of None \<Rightarrow> [] | Some s \<Rightarrow> s)"

definition unassigned_neighbors :: "crossword \<Rightarrow> assignment \<Rightarrow> variable \<Rightarrow> variable list" where
  "unassigned_neighbors cw asg var = filter (\<lambda>n. n \<notin> set (map fst asg)) (neighbors cw var)"

definition ruled_out_in :: "crossword \<Rightarrow> domains \<Rightarrow> variable \<Rightarrow> string \<Rightarrow> variable \<Rightarrow> nat" where
  "ruled_out_in cw doms var w n =
     (case overlaps cw (var, n) of
        Some (Some ov) \<Rightarrow> length (filter (\<lambda>v. v ! snd ov \<noteq> w ! fst ov) (domain_of doms n))
      | _ \<Rightarrow> 0)"

definition ruled_out :: "crossword \<Rightarrow> domains \<Rightarrow> assignment \<Rightarrow> variable \<Rightarrow> string \<Rightarrow> nat" where
  "ruled_out cw doms asg var w =
     sum_list (map (ruled_out_in cw doms var w) (unassigned_neighbors cw asg var))"

definition agreeing_in :: "crossword \<Rightarrow> domains \<Rightarrow> variable \<Rightarrow> string \<Rightarrow> variable \<Rightarrow> nat" where
  "agreeing_in cw doms var w n =
     (case overlaps cw (var, n) of
        Some (Some ov) \<Rightarrow> length (filter (\<lambda>v. v ! snd ov = w ! fst ov) (domain_of doms n))
      | _ \<Rightarrow> 0)"

definition agreeing :: "crossword \<Rightarrow> domains \<Rightarrow> assignment \<Rightarrow> variable \<Rightarrow> string \<Rightarrow> nat" where
  "agreeing cw doms asg var w =
     sum_list (map (agreeing_in cw doms var w) (unassigned_neighbors cw asg var))"

definition constrained_total :: "crossword \<Rightarrow> domains \<Rightarrow> assignment \<Rightarrow> variable \<Rightarrow> nat" where
  "constrained_total cw doms asg var =
     sum_list (map (\<lambda>n. case overlaps cw (var, n) of
                           Some (Some ov) \<Rightarrow> length (domain_of doms n) | _ \<Rightarrow> 0)
                   (unassigned_neighbors cw asg var))"

definition indexable :: "crossword \<Rightarrow> domains \<Rightarrow> assignment \<Rightarrow> variable \<Rightarrow> string list \<Rightarrow> bool" where
  "indexable cw doms asg var vdomain =
     (\<forall>n\<in>set (unassigned_neighbors cw asg var).
        \<exists>a b s. overlaps cw (var, n) = Some (Some (a, b)) \<and> map_of doms n = Some s \<and>
                (\<forall>w\<in>set vdomain. a < length w) \<and> (\<forall>v\<in>set s. b < length v))"

section \<open>Example puzzles\<close>

text \<open>Two crossing slots: \<open>slotA\<close> runs across the top row, \<open>slotB\<close> runs down from its third
  cell, so letter 2 of \<open>slotA\<close> is letter 0 of \<open>slotB\<close>. \<open>slotC\<close> lies two rows below
  \<open>slotA\<close> and shares no cell with it.\<close>

definition slotA :: variable where
  "slotA = \<lparr>var_i = 0, var_j = 0, var_direction = ACROSS, var_length = 3\<rparr>"

definition slotB :: variable where
  "slotB = \<lparr>var_i = 0, var_j = 2, var_direction = DOWN, var_length = 4\<rparr>"

definition slotC :: variable where
  "slotC = \<lparr>var_i = 2, var_j = 0, var_direction = ACROSS, var_length = 3\<rparr>"

definition crossed :: crossword where
  "crossed = \<lparr>variables = [slotA, slotB], words = [''cat'', ''toga'', ''dog''],
     overlaps = (\<lambda>p. if p = (slotA, slotB) then Some (Some (2, 0))
                     else if p = (slotB, slotA) then Some (Some (0, 2)) else None),
     neighbors = (\<lambda>v. if v = slotA then [slotB] else if v = slotB then [slotA] else [])\<rparr>"

definition apart :: crossword where
  "apart = \<lparr>variables = [slotA, slotC], words = [''cat'', ''dog''],
     overlaps = (\<lambda>p. if p = (slotA, slotC) then Some None
                     else if p = (slotC, slotA) then Some None else None),
     neighbors = (\<lambda>v. [])\<rparr>"

text \<open>The store that \<^verbatim>\<open>__init__\<close> builds: every slot starts with the whole dictionary.\<close>

definition initial_domains :: "crossword \<Rightarrow> domains" where
  "initial_domains cw = map (\<lambda>var. (var, words cw)) (variables cw)"

section \<open>Node consistency\<close>

lemma slots_distinct: "slotA \<noteq> slotB" "slotB \<noteq> slotA" "slotA \<noteq> slotC" "slotC \<noteq> slotA"
  "slotB \<noteq> slotC" "slotC \<noteq> slotB"
  by (simp_all add: slotA_def slotB_def slotC_def)

lemma slot_lengths: "var_length slotA = 3" "var_length slotB = 4" "var_length slotC = 3"
  by (simp_all add: slotA_def slotB_def slotC_def)

lemma update_as_map:
  "distinct (map fst d) \<Longrightarrow> k \<in> fst ` set d \<Longrightarrow>
   AList.update k v d = map (\<lambda>(k', x). (k', if k' = k then v else x)) d"
proof (induction d)
  case Nil
  then show ?case by simp
next
  case (Cons p d)
  show ?case
  proof (cases "fst p = k")
    case True
    with Cons.prems have "k \<notin> fst ` set d" by auto
    then have "map (\<lambda>(k', x). (k', if k' = k then v else x)) d = d"
      by (induction d) auto
    with True show ?thesis by (cases p) simp
  next
    case False
    with Cons show ?thesis by (cases p) auto
  qed
qed

text \<open>A loop that removes from the set under \<open>var\<close> every word of \<open>cs\<close> that fails \<open>keep\<close>:
  no removal raises as long as the words to remove are members, and the set ends up
  filtered.\<close>

lemma remove_loop:
  assumes body: "\<And>c d. body c d = (if keep c then Inr d else domain_remove var c d)"
  shows "distinct cs \<Longrightarrow> (\<forall>c\<in>set cs. \<not> keep c \<longrightarrow> c \<in> set s) \<Longrightarrow>
   map_of d var = Some s \<Longrightarrow>
   for_each body cs d = Inr (dict_set d var (filter (\<lambda>w. w \<in> set cs \<longrightarrow> keep w) s))"
proof (induction cs arbitrary: d s)
  case Nil
  then show ?case by (simp add: dict_set_def update_triv)
next
  case (Cons c cs)
  show ?case
  proof (cases "keep c")
    case True
    have "filter (\<lambda>w. w \<in> set (c # cs) \<longrightarrow> keep w) s = filter (\<lambda>w. w \<in> set cs \<longrightarrow> keep w) s"
      using True by (intro filter_cong) auto
    moreover have "for_each body cs d =
       Inr (dict_set d var (filter (\<lambda>w. w \<in> set cs \<longrightarrow> keep w) s))"
      using Cons.prems by (intro Cons.IH) auto
    moreover have "body c d = Inr d"
      using True by (simp add: body)
    ultimately show ?thesis by simp
  next
    case False
    let ?s' = "removeAll c s"
    let ?d' = "dict_set d var ?s'"
    from False Cons.prems have cin: "c \<in> set s" by simp
    have step: "body c d = Inr ?d'"
      using False cin Cons.prems(3)
      by (simp add: body domain_remove_def dict_get_def set_remove_def)
    have m: "map_of ?d' var = Some ?s'" by (simp add: dict_set_def update_conv')
    have "for_each body cs ?d' =
       Inr (dict_set ?d' var (filter (\<lambda>w. w \<in> set cs \<longrightarrow> keep w) ?s'))"
      using Cons.prems m by (intro Cons.IH) auto
    moreover have "filter (\<lambda>w. w \<in> set cs \<longrightarrow> keep w) ?s'
        = filter (\<lambda>w. w \<in> set (c # cs) \<longrightarrow> keep w) s"
      using False by (induction s) auto
    ultimately show ?thesis using step by (simp add: dict_set_def)
  qed
qed

lemma prune_slot_eq:
  assumes "distinct s" "map_of d var = Some s"
  shows "prune_slot var d = Inr (dict_set d var (filter (\<lambda>w. length w = var_length var) s))"
proof -
  have "filter (\<lambda>w. w \<in> set s \<longrightarrow> length w = var_length var) s
      = filter (\<lambda>w. length w = var_length var) s"
    by (intro filter_cong) auto
  moreover have "for_each (prune_value var) s d =
     Inr (dict_set d var (filter (\<lambda>w. w \<in> set s \<longrightarrow> length w = var_length var) s))"
    using assms by (intro remove_loop) (auto simp: prune_value_def)
  ultimately show ?thesis
    using assms by (simp add: prune_slot_def dict_get_def)
qed

lemma prune_slot_as_map:
  assumes "wf_domains d" "k \<in> fst ` set d"
  shows "prune_slot k d =
    Inr (map (\<lambda>(var, s). (var, if var = k then filter (\<lambda>w. length w = var_length var) s else s)) d)"
proof -
  from assms obtain s where s: "map_of d k = Some s"
    by (metis domD dom_map_of_conv_image_fst)
  then have ks: "(k, s) \<in> set d" by (rule map_of_SomeD)
  with assms(1) have ds: "distinct s" by (auto simp: wf_domains_def list_all_iff)
  have uniq: "\<And>x. (k, x) \<in> set d \<Longrightarrow> x = s"
    using assms(1) s by (auto simp: wf_domains_def)
  have "dict_set d k (filter (\<lambda>w. length w = var_length k) s)
      = map (\<lambda>(k', x). (k', if k' = k then filter (\<lambda>w. length w = var_length k) s else x)) d"
    using assms by (simp add: dict_set_def wf_domains_def update_as_map)
  also have "\<dots> = map (\<lambda>(var, s). (var, if var = k then filter (\<lambda>w. length w = var_length var) s else s)) d"
    using uniq by (intro map_cong) auto
  finally show ?thesis using prune_slot_eq [OF ds s] by simp
qed

lemma prune_slots_as_map:
  "wf_domains d \<Longrightarrow> set ks \<subseteq> fst ` set d \<Longrightarrow>
   for_each prune_slot ks d =
    Inr (map (\<lambda>(var, s). (var, if var \<in> set ks then filter (\<lambda>w. length w = var_length var) s else s)) d)"
proof (induction ks arbitrary: d)
  case Nil
  then show ?case by (simp add: case_prod_unfold)
next
  case (Cons k ks)
  let ?d' = "map (\<lambda>(var, s). (var, if var = k then filter (\<lambda>w. length w = var_length var) s else s)) d"
  have step: "prune_slot k d = Inr ?d'"
    using Cons.prems by (intro prune_slot_as_map) auto
  have keys: "map fst ?d' = map fst d" by (simp add: case_prod_unfold comp_def)
  have wf: "wf_domains ?d'"
  proof -
    have "distinct (map fst ?d')"
      using Cons.prems(1) by (simp only: keys wf_domains_def)
    moreover have "list_all (\<lambda>(var, s). distinct s) ?d'"
      using Cons.prems(1) by (auto simp: wf_domains_def list_all_iff)
    ultimately show ?thesis unfolding wf_domains_def by blast
  qed
  have sub: "set ks \<subseteq> fst ` set ?d'"
    using Cons.prems(2) keys by (metis list.set_map set_subset_Cons subset_trans)
  have "for_each prune_slot ks ?d' =
    Inr (map (\<lambda>(var, s). (var, if var \<in> set ks then filter (\<lambda>w. length w = var_length var) s else s)) ?d')"
    using wf sub by (rule Cons.IH)
  also have "map (\<lambda>(var, s). (var, if var \<in> set ks then filter (\<lambda>w. length w = var_length var) s else s)) ?d'
     = map (\<lambda>(var, s). (var, if var \<in> set (k # ks) then filter (\<lambda>w. length w = var_length var) s else s)) d"
    by (auto simp: case_prod_unfold)
  finally show ?case using step by simp
qed

lemma enforce_node_consistency_eq:
  assumes "wf_domains doms"
  shows "enforce_node_consistency doms = Inr (fitting_words doms)"
proof -
  have "for_each prune_slot (map fst doms) doms =
    Inr (map (\<lambda>(var, s). (var, if var \<in> set (map fst doms) then filter (\<lambda>w. length w = var_length var) s else s)) doms)"
    using assms by (intro prune_slots_as_map) auto
  also have "map (\<lambda>(var, s). (var, if var \<in> set (map fst doms) then filter (\<lambda>w. length w = var_length var) s else s)) doms
      = fitting_words doms"
    unfolding fitting_words_def by (intro map_cong) (auto simp: rev_image_eqI)
  finally show ?thesis by (simp add: enforce_node_consistency_def)
qed

lemma wf_fitting_words: "wf_domains doms \<Longrightarrow> wf_domains (fitting_words doms)"
  by (auto simp: wf_domains_def fitting_words_def list_all_iff case_prod_unfold comp_def)

lemma fitting_words_idem: "fitting_words (fitting_words doms) = fitting_words doms"
  by (simp add: fitting_words_def case_prod_unfold comp_def)

text \<open>
  Claim C6. On every domain store, \<^verbatim>\<open>enforce_node_consistency\<close> returns without raising and
  leaves the store \<open>fitting_words doms\<close>: the same slots in the same order, each with
  exactly those of its words whose length is the slot's length. A second run on that store
  returns it unchanged.
\<close>

theorem enforce_node_consistency_idempotent:
  assumes "wf_domains doms"
  shows "enforce_node_consistency doms = Inr (fitting_words doms) \<and>
         enforce_node_consistency (fitting_words doms) = Inr (fitting_words doms)"
  using assms enforce_node_consistency_eq [of doms]
    enforce_node_consistency_eq [of "fitting_words doms"]
  by (simp add: wf_fitting_words fitting_words_idem)

theorem enforce_node_consistency_idempotent_witness:
  "enforce_node_consistency (initial_domains crossed)
     = Inr [(slotA, [''cat'', ''dog'']), (slotB, [''toga''])] \<and>
   enforce_node_consistency [(slotA, [''cat'', ''dog'']), (slotB, [''toga''])]
     = Inr [(slotA, [''cat'', ''dog'']), (slotB, [''toga''])]"
  using enforce_node_consistency_idempotent [of "initial_domains crossed"]
  by (simp add: wf_domains_def fitting_words_def initial_domains_def crossed_def
      slots_distinct slot_lengths)

section \<open>Evaluation on concrete puzzles\<close>

text \<open>The loop of \<^verbatim>\<open>ac3\<close> has two behaviours only: on an empty worklist the first
  \<^verbatim>\<open>pop\<close> raises, on any other worklist the body is never entered.\<close>

lemma ac3_loop_empty: "ac3_loop cw doms [] = Inl IndexError"
  by (subst ac3_loop.simps) simp

lemma ac3_loop_nonempty: "arclist \<noteq> [] \<Longrightarrow> ac3_loop cw doms arclist = Inr (True, doms)"
  by (subst ac3_loop.simps) simp

declare ac3_loop.simps [simp del]

lemmas python_defs = dict_get_def dict_set_def dict_del_def set_remove_def str_index_def
  lookup_overlap_def

lemmas ac3_defs = ac3_def seed_arcs_def seed_pair_def ac3_loop_empty ac3_loop_nonempty

lemmas revise_defs = revise_def collect_value_def collect_pair_def drop_value_def
  domain_remove_def

lemmas search_defs = assignment_complete_def consistent_def order_domain_values_def
  count_value_def count_neighbor_def count_pair_def select_unassigned_variable_def
  count_unassigned_def count_degree_def returned_def

lemma three: "3 = Suc (Suc (Suc 0))" by simp


section \<open>Arc revision\<close>

lemma collect_pairs:
  "(\<forall>v\<in>set ys. b < length v) \<Longrightarrow> a < length w \<Longrightarrow>
   for_each (collect_pair (a, b) w) ys removable =
     Inr (if w \<notin> set removable \<and> supported a b ys w then removable @ [w] else removable)"
proof (induction ys arbitrary: removable)
  case Nil
  then show ?case by (simp add: supported_def)
next
  case (Cons v ys)
  have step: "collect_pair (a, b) w v removable =
      Inr (if w ! a = v ! b \<and> w \<notin> set removable then removable @ [w] else removable)"
    using Cons.prems by (simp add: collect_pair_def str_index_def)
  have ih: "\<And>r. for_each (collect_pair (a, b) w) ys r =
     Inr (if w \<notin> set r \<and> supported a b ys w then r @ [w] else r)"
    using Cons.prems by (intro Cons.IH) auto
  show ?case
    by (simp add: step ih supported_def)
qed

lemma collect_values:
  "map_of doms y = Some ydomain \<Longrightarrow> (\<forall>v\<in>set ydomain. b < length v) \<Longrightarrow>
   (\<forall>w\<in>set xs. a < length w) \<Longrightarrow>
   \<exists>r. for_each (collect_value doms y (a, b)) xs removable = Inr r \<and>
       set r = set removable \<union> {w \<in> set xs. supported a b ydomain w}"
proof (induction xs arbitrary: removable)
  case Nil
  then show ?case by simp
next
  case (Cons w xs)
  let ?r1 = "if w \<notin> set removable \<and> supported a b ydomain w then removable @ [w] else removable"
  have step: "collect_value doms y (a, b) w removable = Inr ?r1"
    using Cons.prems collect_pairs [of ydomain b a w removable]
    by (simp add: collect_value_def dict_get_def)
  from Cons.prems obtain r where r: "for_each (collect_value doms y (a, b)) xs ?r1 = Inr r"
      "set r = set ?r1 \<union> {w \<in> set xs. supported a b ydomain w}"
    using Cons.IH [of ?r1] by auto
  have "for_each (collect_value doms y (a, b)) (w # xs) removable = Inr r"
    using step r(1) by simp
  moreover have "set r = set removable \<union> {u \<in> set (w # xs). supported a b ydomain u}"
    using r(2) by auto
  ultimately show ?case by blast
qed

lemma revise_overlap:
  assumes ov: "overlaps cw (x, y) = Some (Some (a, b))"
    and dx: "map_of doms x = Some xdomain" and dy: "map_of doms y = Some ydomain"
    and dist: "distinct xdomain"
    and ia: "\<forall>w\<in>set xdomain. a < length w" and ib: "\<forall>v\<in>set ydomain. b < length v"
  shows "revise cw doms x y =
     Inr (list_ex (\<lambda>w. \<not> supported a b ydomain w) xdomain,
          dict_set doms x (filter (supported a b ydomain) xdomain))"
proof -
  obtain r where r: "for_each (collect_value doms y (a, b)) xdomain [] = Inr r"
      "set r = {w \<in> set xdomain. supported a b ydomain w}"
    using collect_values [OF dy ib ia, of "[]"] by auto
  have "for_each (drop_value x r) xdomain doms =
      Inr (dict_set doms x (filter (\<lambda>w. w \<in> set xdomain \<longrightarrow> w \<in> set r) xdomain))"
    using dist dx by (intro remove_loop) (auto simp: drop_value_def)
  moreover have "filter (\<lambda>w. w \<in> set xdomain \<longrightarrow> w \<in> set r) xdomain
      = filter (supported a b ydomain) xdomain"
    using r(2) by (intro filter_cong) auto
  ultimately have drop: "for_each (drop_value x r) xdomain doms =
      Inr (dict_set doms x (filter (supported a b ydomain) xdomain))"
    by simp
  have get: "dict_get (dict_set doms x (filter (supported a b ydomain) xdomain)) x
      = Inr (filter (supported a b ydomain) xdomain)"
    by (simp add: dict_get_def dict_set_def update_conv')
  have changed: "(set xdomain \<noteq> set (filter (supported a b ydomain) xdomain))
      = list_ex (\<lambda>w. \<not> supported a b ydomain w) xdomain"
    by (auto simp: list_ex_iff)
  show ?thesis
    using ov dx r(1) drop get changed
    by (simp add: revise_def lookup_overlap_def dict_get_def)
qed

lemma revise_no_overlap:
  "overlaps cw (x, y) = Some None \<Longrightarrow> revise cw doms x y = Inr (False, doms)"
  by (simp add: revise_def lookup_overlap_def)

text \<open>
  Claim C4. Let \<open>x\<close> and \<open>y\<close> have the overlap \<open>(a, b)\<close>, let \<open>xdomain\<close> and \<open>ydomain\<close> be
  their domains, and let every word be long enough for its overlap index (as after node
  consistency on a well-formed puzzle). Then \<^verbatim>\<open>revise(x, y)\<close> returns without raising, the
  store afterwards differs from the one before only in \<open>x\<close>'s domain, which keeps exactly the
  words with a supporting word in \<open>ydomain\<close>, and the returned flag is true iff some word
  of \<open>xdomain\<close> had no support, that is iff a word was removed. When the overlap entry of
  \<open>(x, y)\<close> is \<^verbatim>\<open>None\<close>, \<^verbatim>\<open>revise\<close> returns false and the store is unchanged.
\<close>

theorem revise_removes_unsupported:
  "(overlaps cw (x, y) = Some (Some (a, b)) \<longrightarrow>
      map_of doms x = Some xdomain \<longrightarrow> map_of doms y = Some ydomain \<longrightarrow> distinct xdomain \<longrightarrow>
      (\<forall>w\<in>set xdomain. a < length w) \<longrightarrow> (\<forall>v\<in>set ydomain. b < length v) \<longrightarrow>
      revise cw doms x y =
        Inr (list_ex (\<lambda>w. \<not> supported a b ydomain w) xdomain,
             dict_set doms x (filter (supported a b ydomain) xdomain))) \<and>
   (overlaps cw (x, y) = Some None \<longrightarrow> revise cw doms x y = Inr (False, doms))"
  using revise_overlap revise_no_overlap by blast

theorem revise_removes_unsupported_witness:
  "revise crossed [(slotA, [''cat'', ''dog'']), (slotB, [''toga''])] slotA slotB
     = Inr (True, [(slotA, [''cat'']), (slotB, [''toga''])]) \<and>
   revise apart [(slotA, [''cat'']), (slotC, [''dog''])] slotA slotC
     = Inr (False, [(slotA, [''cat'']), (slotC, [''dog''])])"
  using revise_removes_unsupported [of crossed slotA slotB 2 0
        "[(slotA, [''cat'', ''dog'']), (slotB, [''toga''])]" "[''cat'', ''dog'']" "[''toga'']"]
    revise_removes_unsupported [of apart slotA slotC 0 0 "[(slotA, [''cat'']), (slotC, [''dog''])]" "[]" "[]"]
  by (simp add: crossed_def apart_def slots_distinct supported_def dict_set_def)

lemma domain_remove_frame:
  "domain_remove x c d = Inr d' \<Longrightarrow>
   map fst d' = map fst d \<and> (\<forall>z. z \<noteq> x \<longrightarrow> map_of d' z = map_of d z)"
proof -
  assume a: "domain_remove x c d = Inr d'"
  then obtain s s' where s: "map_of d x = Some s" and d': "d' = AList.update x s' d"
    by (auto simp: domain_remove_def dict_get_def dict_set_def split: option.splits sum.splits)
  from s have "x \<in> fst ` set d" by (metis domI dom_map_of_conv_image_fst)
  then show ?thesis by (simp add: d' update_keys update_conv')
qed

lemma drop_loop_frame:
  "for_each (drop_value x r) cs d = Inr d' \<Longrightarrow>
   map fst d' = map fst d \<and> (\<forall>z. z \<noteq> x \<longrightarrow> map_of d' z = map_of d z)"
proof (induction cs arbitrary: d)
  case Nil
  then show ?case by simp
next
  case (Cons c cs)
  then obtain d1 where d1: "drop_value x r c d = Inr d1" "for_each (drop_value x r) cs d1 = Inr d'"
    by (auto split: sum.splits)
  from d1(1) have "map fst d1 = map fst d \<and> (\<forall>z. z \<noteq> x \<longrightarrow> map_of d1 z = map_of d z)"
    using domain_remove_frame [of x c d d1] by (auto simp: drop_value_def split: if_splits)
  with Cons.IH [OF d1(2)] show ?case by simp
qed

text \<open>
  Claim C5, as the code has it. \<^verbatim>\<open>revise(x, y)\<close> reads \<^verbatim>\<open>domains[y]\<close> (that is how it finds
  the supporting words) but writes \<^verbatim>\<open>domains[x]\<close> only: whenever it returns, the store has
  the same slots in the same order, and every slot other than \<open>x\<close> has the domain it had
  before the call.
\<close>

theorem revise_frame:
  assumes "revise cw doms x y = Inr (revised, doms')"
  shows "map fst doms' = map fst doms \<and> (\<forall>z. z \<noteq> x \<longrightarrow> map_of doms' z = map_of doms z)"
  using assms drop_loop_frame [of x _ _ doms doms']
  by (auto simp: revise_def split: sum.splits option.splits)


theorem revise_frame_witness:
  "revise crossed [(slotA, [''cat'', ''dog'']), (slotB, [''toga'', ''tuna''])] slotA slotB
     = Inr (True, [(slotA, [''cat'']), (slotB, [''toga'', ''tuna''])]) \<and>
   map_of [(slotA, [''cat'']), (slotB, [''toga'', ''tuna''])] slotB
     = map_of [(slotA, [''cat'', ''dog'']), (slotB, [''toga'', ''tuna''])] slotB"
  using revise_frame [of crossed "[(slotA, [''cat'', ''dog'']), (slotB, [''toga'', ''tuna''])]"
      slotA slotB True "[(slotA, [''cat'']), (slotB, [''toga'', ''tuna''])]"]
  by (simp add: revise_defs python_defs crossed_def slots_distinct)

text \<open>
  Claim C5, as stated, fails: the two stores below agree on \<open>slotA\<close> and differ at \<open>slotB\<close>
  only, and \<^verbatim>\<open>revise(slotA, slotB)\<close> removes \<^verbatim>\<open>dog\<close> from the first and \<^verbatim>\<open>cat\<close> from the second.
\<close>

theorem revise_reads_other_domain:
  "revise crossed [(slotA, [''cat'', ''dog'']), (slotB, [''toga''])] slotA slotB
     = Inr (True, [(slotA, [''cat'']), (slotB, [''toga''])]) \<and>
   revise crossed [(slotA, [''cat'', ''dog'']), (slotB, [''goat''])] slotA slotB
     = Inr (True, [(slotA, [''dog'']), (slotB, [''goat''])])"
  by (simp add: revise_defs python_defs crossed_def slots_distinct)

section \<open>AC-3\<close>

lemma seed_pairs_none:
  "(\<forall>b\<in>set bs. a \<noteq> b \<longrightarrow> overlaps cw (a, b) = Some None) \<Longrightarrow>
   for_each (seed_pair cw a) bs arclist = Inr arclist"
  by (induction bs) (auto simp: seed_pair_def lookup_overlap_def)

lemma seed_arcs_none:
  "(\<forall>a\<in>set as. \<forall>b\<in>set bs. a \<noteq> b \<longrightarrow> overlaps cw (a, b) = Some None) \<Longrightarrow>
   for_each (\<lambda>a. for_each (seed_pair cw a) bs) as arclist = Inr arclist"
  by (induction as) (auto simp: seed_pairs_none)

text \<open>
  Claim C10. When \<^verbatim>\<open>ac3\<close> is called with \<^verbatim>\<open>arcs=None\<close> or with an empty list, and the overlap
  entry of every ordered pair of different slots of the store is \<^verbatim>\<open>None\<close>, the seeded worklist
  is empty, the loop \<^verbatim>\<open>while not arclist\<close> is entered, and \<^verbatim>\<open>arclist.pop(0)\<close> raises
  \<^verbatim>\<open>IndexError\<close>: no boolean is returned.
\<close>

theorem ac3_without_overlaps_raises:
  assumes "arcs = None \<or> arcs = Some []"
    and "\<forall>a\<in>set (map fst doms). \<forall>b\<in>set (map fst doms). a \<noteq> b \<longrightarrow> overlaps cw (a, b) = Some None"
  shows "ac3 cw doms arcs = Inl IndexError"
proof -
  have "seed_arcs cw doms = Inr []"
    unfolding seed_arcs_def using assms(2) by (rule seed_arcs_none)
  with assms(1) show ?thesis by (auto simp: ac3_def ac3_loop_empty)
qed

theorem ac3_without_overlaps_raises_witness:
  "ac3 apart (initial_domains apart) None = Inl IndexError \<and>
   ac3 apart (initial_domains apart) (Some []) = Inl IndexError"
  using ac3_without_overlaps_raises [of None "initial_domains apart" apart]
    ac3_without_overlaps_raises [of "Some []" "initial_domains apart" apart]
  by (simp add: initial_domains_def apart_def slots_distinct)

text \<open>
  Claim C1 at a failing input. With the domains \<^verbatim>\<open>{cat, dog}\<close> for \<open>slotA\<close> and \<^verbatim>\<open>{toga}\<close>
  for \<open>slotB\<close>, whose overlap is \<open>(2, 0)\<close>, the seeded worklist is not empty, so the loop is
  skipped: \<^verbatim>\<open>ac3\<close> returns true and leaves the store as it was, although \<^verbatim>\<open>dog\<close> has no
  supporting word in the domain of the neighbour \<open>slotB\<close>.
\<close>

theorem ac3_leaves_unsupported_word:
  "ac3 crossed [(slotA, [''cat'', ''dog'']), (slotB, [''toga''])] None
     = Inr (True, [(slotA, [''cat'', ''dog'']), (slotB, [''toga''])]) \<and>
   overlaps crossed (slotA, slotB) = Some (Some (2, 0)) \<and>
   supported 2 0 [''toga''] ''dog'' = False"
  by (simp add: ac3_defs python_defs crossed_def slots_distinct supported_def)

text \<open>
  Claim C2 at a failing input. With the dictionary \<^verbatim>\<open>{cat, dog}\<close> node consistency leaves
  \<open>slotB\<close> (length 4) with the empty domain, and the call of \<^verbatim>\<open>ac3\<close> that follows returns
  true.
\<close>

theorem ac3_true_on_empty_domain:
  "enforce_node_consistency [(slotA, [''cat'', ''dog'']), (slotB, [''cat'', ''dog''])]
     = Inr [(slotA, [''cat'', ''dog'']), (slotB, [])] \<and>
   ac3 crossed [(slotA, [''cat'', ''dog'']), (slotB, [])] None
     = Inr (True, [(slotA, [''cat'', ''dog'']), (slotB, [])])"
  by (simp add: enforce_node_consistency_def prune_slot_def prune_value_def domain_remove_def
      ac3_defs python_defs crossed_def slots_distinct slot_lengths)

section \<open>The top level\<close>







section \<open>Consistency of assignments\<close>

lemma check_neighbors_True:
  "check_neighbors cw asg var ns = Inr True \<longleftrightarrow> (\<forall>n\<in>set ns. agree cw asg var n)"
proof (induction ns)
  case Nil
  show ?case by simp
next
  case (Cons n ns)
  show ?case
  proof (cases "overlaps cw (var, n)")
    case None
    then show ?thesis by (simp add: lookup_overlap_def agree_def)
  next
    case (Some ov)
    show ?thesis
    proof (cases ov)
      case None
      with Some Cons show ?thesis by (simp add: lookup_overlap_def agree_def)
    next
      case (Some ab)
      with \<open>overlaps cw (var, n) = Some ov\<close> Cons show ?thesis
        by (auto simp: lookup_overlap_def agree_def dict_get_def str_index_def
            split: option.splits)
    qed
  qed
qed

lemma consistent_loop_True:
  "consistent_loop cw asg vars seen = Inr True \<longleftrightarrow>
     (\<forall>var\<in>set vars. slot_ok cw asg var) \<and>
     distinct (map (\<lambda>v. the (map_of asg v)) vars) \<and>
     set seen \<inter> set (map (\<lambda>v. the (map_of asg v)) vars) = {}"
proof (induction vars arbitrary: seen)
  case Nil
  show ?case by simp
next
  case (Cons var vars)
  show ?case
  proof (cases "map_of asg var")
    case None
    then show ?thesis by (simp add: dict_get_def slot_ok_def)
  next
    case (Some w)
    show ?thesis
    proof (cases "check_neighbors cw asg var (neighbors cw var)")
      case (Inl e)
      then have "\<not> (\<forall>n\<in>set (neighbors cw var). agree cw asg var n)"
        using check_neighbors_True [of cw asg var "neighbors cw var"] by simp
      with Inl Some show ?thesis by (simp add: dict_get_def slot_ok_def)
    next
      case (Inr ok)
      then have ok: "ok \<longleftrightarrow> (\<forall>n\<in>set (neighbors cw var). agree cw asg var n)"
        using check_neighbors_True [of cw asg var "neighbors cw var"] by auto
      show ?thesis
        using Some Inr ok Cons.IH [of "seen @ [w]"]
        by (auto simp: dict_get_def slot_ok_def)
    qed
  qed
qed

lemma consistent_True:
  "consistent cw asg = Inr True \<longleftrightarrow>
     (\<forall>var\<in>set (map fst asg). slot_ok cw asg var) \<and>
     distinct (map (\<lambda>v. the (map_of asg v)) (map fst asg))"
  by (simp add: consistent_def consistent_loop_True)

lemma agree_restrict:
  assumes "agree cw asg var n" "var \<in> S"
  shows "agree cw (AList.restrict S asg) var n"
  using assms
  by (auto simp: agree_def restr_conv' restrict_map_def split: option.splits)

lemma slot_ok_restrict:
  assumes "slot_ok cw asg var" "var \<in> S"
  shows "slot_ok cw (AList.restrict S asg) var"
  using assms agree_restrict [of cw asg var _ S]
  by (auto simp: slot_ok_def restr_conv' restrict_map_def)

text \<open>
  Claim C8. If \<^verbatim>\<open>consistent\<close> returns true on an assignment (complete or not), it returns true
  on every assignment obtained from it by deleting slots: \<open>AList.restrict S asg\<close> keeps the
  entries of the slots in \<open>S\<close>, in their order, and drops the others.
\<close>

theorem consistent_restrict:
  assumes "consistent cw asg = Inr True"
  shows "consistent cw (AList.restrict S asg) = Inr True"
proof -
  let ?r = "AList.restrict S asg"
  from assms have ok: "\<forall>var\<in>set (map fst asg). slot_ok cw asg var"
    and dist: "distinct (map (\<lambda>v. the (map_of asg v)) (map fst asg))"
    by (simp_all add: consistent_True)
  have keys: "map fst ?r = filter (\<lambda>v. v \<in> S) (map fst asg)"
    by (induction asg) (auto simp: AList.restrict_eq)
  have "\<forall>var\<in>set (map fst ?r). slot_ok cw ?r var"
    using ok slot_ok_restrict [of cw asg _ S] by (auto simp: keys)
  moreover have "map (\<lambda>v. the (map_of ?r v)) (map fst ?r)
      = map (\<lambda>v. the (map_of asg v)) (filter (\<lambda>v. v \<in> S) (map fst asg))"
    unfolding keys by (intro map_cong) (auto simp: restr_conv' restrict_map_def)
  then have "distinct (map (\<lambda>v. the (map_of ?r v)) (map fst ?r))"
    using dist by (simp only: distinct_map_filter)
  ultimately show ?thesis by (simp only: consistent_True)
qed

theorem consistent_restrict_witness:
  "consistent crossed [(slotB, ''toga''), (slotA, ''cat'')] = Inr True \<and>
   consistent crossed [(slotA, ''cat'')] = Inr True"
  using consistent_restrict [of crossed "[(slotB, ''toga''), (slotA, ''cat'')]" "{slotA}"]
  by (simp add: python_defs search_defs crossed_def slots_distinct slot_lengths AList.restrict_eq)

section \<open>Backtracking\<close>

lemma values_of_keys:
  assumes "distinct (map fst al)"
  shows "map (\<lambda>v. the (map_of al v)) (map fst al) = map snd al"
proof -
  have "\<forall>x\<in>set al. the (map_of al (fst x)) = snd x"
    using assms by auto
  then show ?thesis by (simp add: comp_def)
qed

lemma all_assigned_iff: "all_assigned vars asg \<longleftrightarrow> set vars \<subseteq> set (map fst asg)"
  by (induction vars) auto

lemma try_values_sound:
  assumes bt: "\<And>asg r s. backtrack n cw doms asg = Some (Inr (Some r, s)) \<Longrightarrow>
      consistent cw asg = Inr True \<Longrightarrow>
      r = s \<and> assignment_complete doms r \<and> consistent cw r = Inr True"
  shows "try_values n cw doms var ws asg = Some (Inr (Some r, s)) \<Longrightarrow>
      r = s \<and> assignment_complete doms r \<and> consistent cw r = Inr True"
proof (induction ws arbitrary: asg)
  case Nil
  then show ?case by simp
next
  case (Cons w ws)
  let ?asg1 = "dict_set asg var w"
  show ?case
  proof (cases "consistent cw ?asg1 = Inr True")
    case True
    show ?thesis
    proof (cases "backtrack n cw doms ?asg1")
      case None
      with True Cons.prems show ?thesis by simp
    next
      case (Some outcome)
      show ?thesis
      proof (cases outcome)
        case (Inl e)
        with Some True Cons.prems show ?thesis by simp
      next
        case (Inr pair)
        obtain res asg' where pair: "pair = (res, asg')" by (cases pair)
        show ?thesis
        proof (cases "res \<noteq> None \<and> res \<noteq> Some []")
          case truthy: True
          with Some Inr pair True Cons.prems have "backtrack n cw doms ?asg1 = Some (Inr (Some r, s))"
            by simp
          then show ?thesis using True by (rule bt)
        next
          case False
          with Some Inr pair True Cons.prems obtain asg'' where
            "try_values n cw doms var ws asg'' = Some (Inr (Some r, s))"
            by (auto split: sum.splits)
          then show ?thesis by (rule Cons.IH)
        qed
      qed
    qed
  next
    case False
    with Cons.prems obtain asg'' where
      "try_values n cw doms var ws asg'' = Some (Inr (Some r, s))"
      by (auto split: sum.splits if_splits)
    then show ?thesis by (rule Cons.IH)
  qed
qed

lemma backtrack_sound:
  "backtrack n cw doms asg = Some (Inr (Some r, s)) \<Longrightarrow> consistent cw asg = Inr True \<Longrightarrow>
      r = s \<and> assignment_complete doms r \<and> consistent cw r = Inr True"
proof (induction n arbitrary: asg r s)
  case 0
  then show ?case by simp
next
  case (Suc n)
  show ?case
  proof (cases "assignment_complete doms asg")
    case True
    with Suc.prems show ?thesis by auto
  next
    case False
    with Suc.prems obtain var candidates where
      "try_values n cw doms var candidates asg = Some (Inr (Some r, s))"
      by (auto split: sum.splits)
    then show ?thesis using Suc.IH by (rule try_values_sound [rotated])
  qed
qed

text \<open>
  Claim C7. Whenever \<^verbatim>\<open>backtrack\<close>, started on an assignment on which \<^verbatim>\<open>consistent\<close> is true,
  returns an assignment, that assignment is complete (\<^verbatim>\<open>assignment_complete\<close> holds: every slot
  of the domain store is assigned) and \<^verbatim>\<open>consistent\<close> returns true on it: every assigned word
  has its slot's length and agrees with the words of the assigned neighbours at the overlaps,
  and the assigned words are pairwise distinct.
\<close>

theorem backtrack_returns_complete_consistent:
  assumes "backtrack fuel cw doms asg = Some (Inr (Some result, asg'))"
    and "consistent cw asg = Inr True"
  shows "assignment_complete doms result \<and> set (map fst doms) \<subseteq> set (map fst result) \<and>
         consistent cw result = Inr True \<and>
         (\<forall>var\<in>set (map fst result). slot_ok cw result var) \<and> distinct (map snd result)"
proof -
  from backtrack_sound [OF assms]
  have c: "assignment_complete doms result" and k: "consistent cw result = Inr True" by blast+
  from k have ok: "\<forall>var\<in>set (map fst result). slot_ok cw result var"
    and d: "distinct (map (\<lambda>v. the (map_of result v)) (map fst result))"
    by (simp_all add: consistent_True)
  from d have dk: "distinct (map fst result)" by (metis distinct_map)
  have "distinct (map snd result)"
    using d unfolding values_of_keys [OF dk] .
  with c k ok show ?thesis by (simp add: assignment_complete_def all_assigned_iff)
qed

theorem backtrack_returns_complete_consistent_witness:
  "backtrack 3 crossed [(slotA, [''cat'', ''dog'']), (slotB, [''toga''])] []
     = Some (Inr (Some [(slotB, ''toga''), (slotA, ''cat'')], [(slotB, ''toga''), (slotA, ''cat'')])) \<and>
   assignment_complete [(slotA, [''cat'', ''dog'']), (slotB, [''toga''])] [(slotB, ''toga''), (slotA, ''cat'')] \<and>
   consistent crossed [(slotB, ''toga''), (slotA, ''cat'')] = Inr True \<and>
   distinct (map snd [(slotB, ''toga''), (slotA, ''cat'')])"
  using backtrack_returns_complete_consistent [of 3 crossed "[(slotA, [''cat'', ''dog'']), (slotB, [''toga''])]" "[]"
      "[(slotB, ''toga''), (slotA, ''cat'')]" "[(slotB, ''toga''), (slotA, ''cat'')]"]
  by (simp add: three python_defs search_defs crossed_def slots_distinct slot_lengths)

section \<open>Ordering of the candidate words\<close>

lemma count_pairs:
  "a < length w \<Longrightarrow> (\<forall>v\<in>set s. b < length v) \<Longrightarrow>
   for_each (count_pair (Some (a, b)) w) s c = Inr (c + int (length (filter (\<lambda>v. v ! b = w ! a) s)))"
  by (induction s arbitrary: c) (auto simp: count_pair_def str_index_def)

lemma count_neighbors:
  assumes w: "w \<in> set vdomain"
  shows "(\<forall>n\<in>set ns. n \<notin> set (map fst asg) \<longrightarrow>
        (\<exists>a b s. overlaps cw (var, n) = Some (Some (a, b)) \<and> map_of doms n = Some s \<and>
                (\<forall>w\<in>set vdomain. a < length w) \<and> (\<forall>v\<in>set s. b < length v))) \<Longrightarrow>
   for_each (count_neighbor cw doms var asg w) ns c =
     Inr (c + int (sum_list (map (agreeing_in cw doms var w)
                                 (filter (\<lambda>n. n \<notin> set (map fst asg)) ns))))"
proof (induction ns arbitrary: c)
  case Nil
  show ?case by simp
next
  case (Cons n ns)
  have ih: "\<And>c. for_each (count_neighbor cw doms var asg w) ns c =
     Inr (c + int (sum_list (map (agreeing_in cw doms var w)
                                 (filter (\<lambda>n. n \<notin> set (map fst asg)) ns))))"
    using Cons.prems by (intro Cons.IH) auto
  show ?case
  proof (cases "n \<in> set (map fst asg)")
    case True
    then have "count_neighbor cw doms var asg w n c = Inr c"
      by (simp add: count_neighbor_def)
    with True ih show ?thesis by simp
  next
    case False
    with Cons.prems obtain a b s where n: "overlaps cw (var, n) = Some (Some (a, b))"
        "map_of doms n = Some s" "\<forall>w\<in>set vdomain. a < length w" "\<forall>v\<in>set s. b < length v"
      by auto
    from n(3) w have "a < length w" by simp
    then have "count_neighbor cw doms var asg w n c
        = Inr (c + int (length (filter (\<lambda>v. v ! b = w ! a) s)))"
      using False n count_pairs [of a w s b c]
      by (simp add: count_neighbor_def lookup_overlap_def dict_get_def)
    moreover have "agreeing_in cw doms var w n = length (filter (\<lambda>v. v ! b = w ! a) s)"
      using n by (simp add: agreeing_in_def domain_of_def)
    ultimately show ?thesis using False ih by simp
  qed
qed

lemma count_value_eq:
  assumes "indexable cw doms asg var vdomain" "w \<in> set vdomain"
  shows "count_value cw doms var asg w count =
     Inr (dict_set count w (int (agreeing cw doms asg var w)))"
proof -
  have "for_each (count_neighbor cw doms var asg w) (neighbors cw var) 0 =
     Inr (0 + int (sum_list (map (agreeing_in cw doms var w)
                                 (filter (\<lambda>n. n \<notin> set (map fst asg)) (neighbors cw var)))))"
    using assms by (intro count_neighbors [of w vdomain]) (auto simp: indexable_def unassigned_neighbors_def)
  then show ?thesis
    by (simp add: count_value_def agreeing_def unassigned_neighbors_def)
qed

lemma update_new_key: "k \<notin> fst ` set al \<Longrightarrow> AList.update k v al = al @ [(k, v)]"
  by (induction al) auto

lemma count_values:
  assumes ix: "indexable cw doms asg var vdomain"
  shows "set ws \<subseteq> set vdomain \<Longrightarrow> distinct ws \<Longrightarrow> set ws \<inter> fst ` set count = {} \<Longrightarrow>
   for_each (count_value cw doms var asg) ws count =
     Inr (count @ map (\<lambda>w. (w, int (agreeing cw doms asg var w))) ws)"
proof (induction ws arbitrary: count)
  case Nil
  show ?case by simp
next
  case (Cons w ws)
  let ?c1 = "count @ [(w, int (agreeing cw doms asg var w))]"
  have "count_value cw doms var asg w count = Inr ?c1"
    using Cons.prems count_value_eq [OF ix, of w count]
    by (simp add: dict_set_def update_new_key)
  moreover have "for_each (count_value cw doms var asg) ws ?c1 =
     Inr (?c1 @ map (\<lambda>w. (w, int (agreeing cw doms asg var w))) ws)"
    using Cons.prems by (intro Cons.IH) auto
  ultimately show ?case by simp
qed

lemma ruled_out_plus_agreeing:
  "ruled_out cw doms asg var w + agreeing cw doms asg var w = constrained_total cw doms asg var"
proof -
  have "\<And>ns. sum_list (map (ruled_out_in cw doms var w) ns) + sum_list (map (agreeing_in cw doms var w) ns)
      = sum_list (map (\<lambda>n. case overlaps cw (var, n) of
                           Some (Some ov) \<Rightarrow> length (domain_of doms n) | _ \<Rightarrow> 0) ns)"
  proof -
    fix ns
    show "sum_list (map (ruled_out_in cw doms var w) ns) + sum_list (map (agreeing_in cw doms var w) ns)
      = sum_list (map (\<lambda>n. case overlaps cw (var, n) of
                           Some (Some ov) \<Rightarrow> length (domain_of doms n) | _ \<Rightarrow> 0) ns)"
    proof (induction ns)
      case Nil
      show ?case by simp
    next
      case (Cons n ns)
      have "ruled_out_in cw doms var w n + agreeing_in cw doms var w n
          = (case overlaps cw (var, n) of Some (Some ov) \<Rightarrow> length (domain_of doms n) | _ \<Rightarrow> 0)"
        using sum_length_filter_compl [of "\<lambda>v. v ! snd ov = w ! fst ov" "domain_of doms n" for ov]
        by (auto simp: ruled_out_in_def agreeing_in_def add.commute split: option.splits)
      with Cons show ?case by simp
    qed
  qed
  then show ?thesis by (simp add: ruled_out_def agreeing_def constrained_total_def)
qed

text \<open>
  Claim C9. Let \<open>vdomain\<close> be the domain of \<open>var\<close>, and let no lookup or indexing raise
  (\<open>indexable\<close>). Then \<^verbatim>\<open>order_domain_values\<close> returns exactly the words of \<open>vdomain\<close>, each
  once, in ascending order of \<open>ruled_out\<close>, the number of words of the unassigned neighbours
  that differ from the candidate at the overlap; assigned neighbours do not count. (The code
  counts the words that agree and sorts by descending count, which is the same order.) The
  function only reads the domain store: it has no assignment to \<^verbatim>\<open>self.domains\<close>, so the model
  takes the store and returns the list alone.
\<close>

theorem order_domain_values_ascending:
  assumes dv: "map_of doms var = Some vdomain" and dist: "distinct vdomain"
    and ix: "indexable cw doms asg var vdomain"
  shows "\<exists>ws. order_domain_values cw doms var asg = Inr ws \<and>
              set ws = set vdomain \<and> distinct ws \<and>
              sorted (map (ruled_out cw doms asg var) ws)"
proof -
  let ?items = "map (\<lambda>w. (w, int (agreeing cw doms asg var w))) vdomain"
  let ?sorted = "sort_key (\<lambda>x. - snd x) ?items"
  let ?ws = "map fst ?sorted"
  have "for_each (count_value cw doms var asg) vdomain [] = Inr ([] @ ?items)"
    using dist by (intro count_values [OF ix]) auto
  then have run: "order_domain_values cw doms var asg = Inr ?ws"
    using dv by (simp add: order_domain_values_def dict_get_def)
  have fst_inj: "inj_on fst (set ?items)" by (auto simp: inj_on_def)
  have "set ?ws = set vdomain" by (simp add: image_image)
  moreover have "distinct ?ws"
    using dist fst_inj by (simp add: distinct_map comp_def inj_on_def)
  moreover have "sorted (map (ruled_out cw doms asg var) ?ws)"
  proof -
    have s: "sorted (map (\<lambda>x. - snd x) ?sorted)" by (rule sorted_sort_key)
    have key: "\<And>x. x \<in> set ?sorted \<Longrightarrow>
        - snd x = int (ruled_out cw doms asg var (fst x)) - int (constrained_total cw doms asg var)"
    proof -
      fix x assume "x \<in> set ?sorted"
      then obtain w where x: "x = (w, int (agreeing cw doms asg var w))" by auto
      have "int (ruled_out cw doms asg var w) + int (agreeing cw doms asg var w)
          = int (constrained_total cw doms asg var)"
        using ruled_out_plus_agreeing [of cw doms asg var w] by (simp only: of_nat_add [symmetric])
      then show "- snd x = int (ruled_out cw doms asg var (fst x)) - int (constrained_total cw doms asg var)"
        by (simp add: x)
    qed
    have "sorted_wrt (\<lambda>x y. - snd x \<le> - snd y) ?sorted"
      using s by (simp only: sorted_map)
    then have "sorted_wrt (\<lambda>x y. ruled_out cw doms asg var (fst x) \<le> ruled_out cw doms asg var (fst y)) ?sorted"
      by (rule sorted_wrt_mono_rel [rotated]) (auto simp: key)
    then show ?thesis by (simp add: sorted_map sorted_wrt_map)
  qed
  ultimately show ?thesis using run by blast
qed

theorem order_domain_values_ascending_witness:
  "order_domain_values crossed [(slotA, [''cat'', ''dog'', ''bat'']), (slotB, [''toga'', ''goat'', ''tuna''])] slotA []
     = Inr [''cat'', ''bat'', ''dog''] \<and>
   map (ruled_out crossed [(slotA, [''cat'', ''dog'', ''bat'']), (slotB, [''toga'', ''goat'', ''tuna''])] [] slotA)
       [''cat'', ''bat'', ''dog''] = [1, 1, 2]"
  using order_domain_values_ascending [of "[(slotA, [''cat'', ''dog'', ''bat'']), (slotB, [''toga'', ''goat'', ''tuna''])]"
      slotA "[''cat'', ''dog'', ''bat'']" crossed "[]"]
  by (simp add: python_defs search_defs crossed_def slots_distinct slot_lengths
      ruled_out_def ruled_out_in_def unassigned_neighbors_def domain_of_def indexable_def)

end
